theory Spec2Isabelle
  imports Complex_Main "HOL-Library.Word"
begin

section \<open>Wire helpers: Python slices and \<open>struct\<close> packing\<close>

type_synonym byte = "8 word"

datatype error = StructError | ValueError | TimeoutError | EngineInitError

text \<open>
  \<open>data[a:b]\<close> on a Python sequence: a negative index counts from the end, and both
  indices are clipped to the sequence, so a slice never raises.
\<close>

definition py_index :: "nat \<Rightarrow> int \<Rightarrow> nat" where
  "py_index n i = (if i < 0 then nat (max 0 (int n + i)) else min n (nat i))"

definition py_slice :: "'a list \<Rightarrow> int \<Rightarrow> int \<Rightarrow> 'a list" where
  "py_slice xs a b =
     (let lo = py_index (length xs) a; hi = py_index (length xs) b
      in take (hi - lo) (drop lo xs))"

text \<open>Little-endian bytes of an integer, and the value of a little-endian byte string.\<close>

fun le_bytes :: "nat \<Rightarrow> int \<Rightarrow> byte list" where
  "le_bytes 0 v = []"
| "le_bytes (Suc k) v = word_of_int v # le_bytes k (v div 256)"

fun le_value :: "byte list \<Rightarrow> int" where
  "le_value [] = 0"
| "le_value (b # bs) = uint b + 256 * le_value bs"

text \<open>
  \<open>struct.pack('<i', v)\<close> and \<open>struct.pack('<q', v)\<close>: a signed integer of 4 or 8 bytes;
  \<open>struct.error\<close> when the value does not fit.
\<close>

definition pack_signed :: "nat \<Rightarrow> int \<Rightarrow> error + byte list" where
  "pack_signed k v =
     (if - (2 ^ (8 * k - 1)) \<le> v \<and> v < 2 ^ (8 * k - 1) then Inr (le_bytes k v)
      else Inl StructError)"

definition pack_i32 :: "int \<Rightarrow> error + byte list" where
  "pack_i32 v = pack_signed 4 v"

definition pack_i64 :: "int \<Rightarrow> error + byte list" where
  "pack_i64 v = pack_signed 8 v"

text \<open>
  \<open>struct.unpack\<close> of \<open>n\<close> signed integers of \<open>k\<close> bytes each
  (\<open>'<q'\<close>, \<open>'<i'\<close>, \<open>'<ii'\<close>, \<open>'<iiii'\<close>): \<open>struct.error\<close> unless the buffer has
  exactly \<open>n * k\<close> bytes.
\<close>

definition to_signed :: "nat \<Rightarrow> int \<Rightarrow> int" where
  "to_signed k u = (if u \<ge> 2 ^ (8 * k - 1) then u - 2 ^ (8 * k) else u)"

definition unpack_signed :: "nat \<Rightarrow> nat \<Rightarrow> byte list \<Rightarrow> error + int list" where
  "unpack_signed k n bs =
     (if length bs \<noteq> n * k then Inl StructError
      else Inr (map (\<lambda>i. to_signed k (le_value (take k (drop (i * k) bs)))) [0..<n]))"

definition unpack_i32 :: "byte list \<Rightarrow> error + int" where
  "unpack_i32 bs = map_sum id hd (unpack_signed 4 1 bs)"

definition unpack_i64 :: "byte list \<Rightarrow> error + int" where
  "unpack_i64 bs = map_sum id hd (unpack_signed 8 1 bs)"

definition unpack_i32s :: "nat \<Rightarrow> byte list \<Rightarrow> error + int list" where
  "unpack_i32s n bs = unpack_signed 4 n bs"

text \<open>Sequencing of calls that may raise: the first exception ends the function.\<close>

definition bind_err :: "error + 'a \<Rightarrow> ('a \<Rightarrow> error + 'b) \<Rightarrow> error + 'b" where
  "bind_err m f = (case m of Inl e \<Rightarrow> Inl e | Inr v \<Rightarrow> f v)"

section \<open>Tiles and delta frames (core/streamable.py)\<close>

record 'img tile =
  tile_x :: int
  tile_y :: int
  tile_width :: int
  tile_height :: int
  image_data :: 'img

record 'img delta_frame =
  frame_number :: int
  changed_tiles :: "'img tile list"
  full_frame_fallback :: bool

section \<open>WebPEncoder.encode (core/encoder.py)\<close>

text \<open>
  The WebP codec is a parameter: \<open>enc\<close> is \<open>_encode_tile\<close>, the bytes PIL writes for the
  tile's image at the encoder's quality. \<open>now_ms\<close> is \<open>int(time.time() * 1000)\<close>.
\<close>

fun encode_tiles :: "('img \<Rightarrow> byte list) \<Rightarrow> 'img tile list \<Rightarrow> error + byte list" where
  "encode_tiles enc [] = Inr []"
| "encode_tiles enc (t # ts) =
     bind_err (pack_i32 (tile_x t)) (\<lambda>bx.
     bind_err (pack_i32 (tile_y t)) (\<lambda>bv.
     bind_err (pack_i32 (tile_width t)) (\<lambda>bw.
     bind_err (pack_i32 (tile_height t)) (\<lambda>bh.
     bind_err (pack_i32 (int (length (enc (image_data t))))) (\<lambda>bl.
     bind_err (encode_tiles enc ts) (\<lambda>rest.
       Inr (bx @ bv @ bw @ bh @ bl @ enc (image_data t) @ rest)))))))"

definition encode :: "('img \<Rightarrow> byte list) \<Rightarrow> int \<Rightarrow> 'img delta_frame \<Rightarrow> error + byte list" where
  "encode enc now_ms delta =
     bind_err (pack_i64 now_ms) (\<lambda>timestamp_bytes.
       if full_frame_fallback delta then
         (if changed_tiles delta = [] \<or> length (changed_tiles delta) \<noteq> 1 then Inr []
          else
            let full_screen_tile = hd (changed_tiles delta);
                encoded_full_frame_data = enc (image_data full_screen_tile)
            in bind_err (pack_i32 0) (\<lambda>b0.
               bind_err (pack_i32 (tile_width full_screen_tile)) (\<lambda>bw.
               bind_err (pack_i32 (tile_height full_screen_tile)) (\<lambda>bh.
               bind_err (pack_i32 (int (length encoded_full_frame_data))) (\<lambda>bl.
                 Inr (1 # timestamp_bytes @ b0 @ bw @ bh @ bl @ encoded_full_frame_data))))))
       else
         bind_err (pack_i32 (int (length (changed_tiles delta)))) (\<lambda>bn.
         bind_err (encode_tiles enc (changed_tiles delta)) (\<lambda>parts.
           Inr (1 # timestamp_bytes @ bn @ parts))))"

section \<open>WebPDeltaDecoder.decode (core/decoder.py)\<close>

text \<open>
  \<open>dec\<close> is \<open>Image.open\<close> on the tile's bytes: \<open>None\<close> when it raises, in which case
  the decoder logs the error and leaves the tile out. The decoder returns the timestamp
  in seconds, \<open>raw_ts / 1000.0\<close>.
\<close>

fun decode_tiles ::
  "(byte list \<Rightarrow> 'img option) \<Rightarrow> byte list \<Rightarrow> nat \<Rightarrow> int \<Rightarrow> error + 'img tile list" where
  "decode_tiles dec data 0 offset = Inr []"
| "decode_tiles dec data (Suc n) offset =
     bind_err (unpack_i32s 4 (py_slice data offset (offset + 16))) (\<lambda>m.
     bind_err (unpack_i32 (py_slice data (offset + 16) (offset + 20))) (\<lambda>tile_data_length.
       let tile_data = py_slice data (offset + 20) (offset + 20 + tile_data_length);
           decoded = (case dec tile_data of
                        None \<Rightarrow> []
                      | Some img \<Rightarrow> [\<lparr>tile_x = m ! 0, tile_y = m ! 1, tile_width = m ! 2,
                                     tile_height = m ! 3, image_data = img\<rparr>])
       in bind_err (decode_tiles dec data n (offset + 20 + tile_data_length)) (\<lambda>rest.
            Inr (decoded @ rest))))"

definition decode ::
  "(byte list \<Rightarrow> 'img option) \<Rightarrow> byte list \<Rightarrow> error + ('img delta_frame \<times> rat)" where
  "decode dec data =
     bind_err (unpack_i64 (py_slice data 0 8)) (\<lambda>raw_ts.
     bind_err (unpack_i32 (py_slice data 8 12)) (\<lambda>num_tiles.
       if num_tiles = 0 then
         bind_err (unpack_i32s 2 (py_slice data 12 20)) (\<lambda>dims.
         bind_err (unpack_i32 (py_slice data 20 24)) (\<lambda>full_image_data_length.
           let full_image_data = py_slice data 24 (24 + full_image_data_length);
               tiles = (case dec full_image_data of
                          None \<Rightarrow> []
                        | Some img \<Rightarrow> [\<lparr>tile_x = 0, tile_y = 0, tile_width = dims ! 0,
                                       tile_height = dims ! 1, image_data = img\<rparr>])
           in Inr (\<lparr>frame_number = 0, changed_tiles = tiles, full_frame_fallback = True\<rparr>,
                   of_int raw_ts / 1000)))
       else
         bind_err (decode_tiles dec data (nat num_tiles) 12) (\<lambda>tiles.
           Inr (\<lparr>frame_number = 0, changed_tiles = tiles, full_frame_fallback = False\<rparr>,
                of_int raw_ts / 1000))))"

text \<open>The geometry of a tile: what the wire format carries besides the image.\<close>

definition tile_geometry :: "'img tile \<Rightarrow> int \<times> int \<times> int \<times> int" where
  "tile_geometry t = (tile_x t, tile_y t, tile_width t, tile_height t)"

section \<open>Screen frames and the tile partitioner (core/tile_partitioner.py)\<close>

text \<open>
  A frame is its NumPy array: \<open>frame_height\<close> rows of \<open>frame_width\<close> pixels, each pixel
  holding \<open>frame_channels\<close> bytes, so the array's \<open>shape\<close> is the triple of the three.
  The pixel type is left open.
\<close>

record 'p screen_frame =
  frame_width :: nat
  frame_height :: nat
  frame_channels :: nat
  frame_rows :: "'p list list"

definition np_shape :: "'p screen_frame \<Rightarrow> nat \<times> nat \<times> nat" where
  "np_shape f = (frame_height f, frame_width f, frame_channels f)"

text \<open>\<open>arr[y:y+height, x:x+width]\<close> for indices that are not negative.\<close>

definition np_region :: "'p screen_frame \<Rightarrow> nat \<Rightarrow> nat \<Rightarrow> nat \<Rightarrow> nat \<Rightarrow> 'p list list" where
  "np_region f x y width height =
     map (\<lambda>row. take width (drop x row)) (take height (drop y (frame_rows f)))"

definition get_tile :: "'p screen_frame \<Rightarrow> nat \<Rightarrow> nat \<Rightarrow> nat \<Rightarrow> nat \<Rightarrow> 'p list list tile" where
  "get_tile f x y width height =
     \<lparr>tile_x = int x, tile_y = int y, tile_width = int width, tile_height = int height,
      image_data = np_region f x y width height\<rparr>"

record 'p partitioner =
  p_tile_size :: int
  p_last_frame_np :: "'p screen_frame option"
  p_frame_number :: int

text \<open>
  \<open>range(0, stop, step)\<close>: \<open>ValueError\<close> for a zero step, empty for a negative one, and
  the multiples of the step below \<open>stop\<close> otherwise.
\<close>

function range_up :: "nat \<Rightarrow> nat \<Rightarrow> nat \<Rightarrow> nat list" where
  "range_up i stop step =
     (if step = 0 \<or> stop \<le> i then [] else i # range_up (i + step) stop step)"
  by pat_completeness auto
termination
  by (relation "measure (\<lambda>(i, stop, step). stop - i)") auto

declare range_up.simps [simp del]

definition py_range :: "nat \<Rightarrow> int \<Rightarrow> error + nat list" where
  "py_range stop step =
     (if step = 0 then Inl ValueError
      else if step < 0 then Inr []
      else Inr (range_up 0 stop (nat step)))"

text \<open>The body of the two nested loops: one grid position.\<close>

definition tile_if_changed ::
  "'p screen_frame \<Rightarrow> 'p screen_frame \<Rightarrow> nat \<Rightarrow> nat \<Rightarrow> nat \<Rightarrow> 'p list list tile list" where
  "tile_if_changed cur prev ts x y =
     (let tile_width = min ts (frame_width cur - x);
          tile_height = min ts (frame_height cur - y)
      in if tile_width \<le> 0 \<or> tile_height \<le> 0 then []
         else if np_region cur x y tile_width tile_height
                 \<noteq> np_region prev x y tile_width tile_height
         then [get_tile cur x y tile_width tile_height]
         else [])"

text \<open>
  The loops over \<open>range(0, height, tile_size)\<close> and \<open>range(0, width, tile_size)\<close>. Both
  ranges raise for the same step only, so the inner one is built once here.
\<close>

definition detect_changes ::
  "'p screen_frame \<Rightarrow> 'p screen_frame \<Rightarrow> int \<Rightarrow> error + 'p list list tile list" where
  "detect_changes cur prev tile_size =
     bind_err (py_range (frame_height cur) tile_size) (\<lambda>ys.
     bind_err (py_range (frame_width cur) tile_size) (\<lambda>xs.
       Inr (concat (map (\<lambda>y. concat (map (\<lambda>x.
              tile_if_changed cur prev (nat tile_size) x y) xs)) ys))))"

definition full_frame_tile :: "'p screen_frame \<Rightarrow> 'p list list tile" where
  "full_frame_tile f = get_tile f 0 0 (frame_width f) (frame_height f)"

text \<open>
  The partitioner's state is returned beside the result. When the loops raise, the frame
  counter has been incremented already and the reference frame has not been replaced.
\<close>

definition partition_and_detect_changes ::
  "'p partitioner \<Rightarrow> 'p screen_frame
     \<Rightarrow> (error + 'p list list delta_frame) \<times> 'p partitioner" where
  "partition_and_detect_changes P current_frame =
     (let n = p_frame_number P + 1;
          P1 = P\<lparr>p_frame_number := n\<rparr>;
          full = (Inr \<lparr>frame_number = n, changed_tiles = [full_frame_tile current_frame],
                       full_frame_fallback = True\<rparr>,
                  P1\<lparr>p_last_frame_np := Some current_frame\<rparr>)
      in case p_last_frame_np P of
           None \<Rightarrow> full
         | Some prev \<Rightarrow>
             if np_shape prev \<noteq> np_shape current_frame then full
             else (case detect_changes current_frame prev (p_tile_size P) of
                     Inl e \<Rightarrow> (Inl e, P1)
                   | Inr tiles \<Rightarrow>
                       (Inr \<lparr>frame_number = n, changed_tiles = tiles,
                             full_frame_fallback = False\<rparr>,
                        P1\<lparr>p_last_frame_np := Some current_frame\<rparr>)))"

definition create_full_frame_delta ::
  "'p partitioner \<Rightarrow> 'p screen_frame \<Rightarrow> 'p list list delta_frame \<times> 'p partitioner" where
  "create_full_frame_delta P screen_frame =
     (\<lparr>frame_number = 0, changed_tiles = [full_frame_tile screen_frame],
       full_frame_fallback = True\<rparr>,
      P\<lparr>p_last_frame_np := Some screen_frame\<rparr>)"

subsection \<open>The grid and the changed tiles, in the specification's words\<close>

text \<open>
  A NumPy array is rectangular: every row of a frame has the frame's width.
\<close>

definition wf_frame :: "'p screen_frame \<Rightarrow> bool" where
  "wf_frame f \<longleftrightarrow>
     length (frame_rows f) = frame_height f
     \<and> list_all (\<lambda>row. length row = frame_width f) (frame_rows f)"

text \<open>
  The grid of step \<open>ts\<close> over a frame of the given width and height, row by row: tile
  \<open>(i, j)\<close> starts at \<open>(i * ts, j * ts)\<close>, and the tiles of the last column and of the last
  row are cut at the frame's edge.
\<close>

definition grid_tiles :: "nat \<Rightarrow> nat \<Rightarrow> nat \<Rightarrow> (nat \<times> nat \<times> nat \<times> nat) list" where
  "grid_tiles w h ts =
     concat (map (\<lambda>j. map (\<lambda>i. (i * ts, j * ts, min ts (w - i * ts), min ts (h - j * ts)))
                          [0..<(w + ts - 1) div ts])
                 [0..<(h + ts - 1) div ts])"

text \<open>A tile has changed when some pixel inside it differs between the two frames.\<close>

definition pixels_differ ::
  "'p screen_frame \<Rightarrow> 'p screen_frame \<Rightarrow> nat \<times> nat \<times> nat \<times> nat \<Rightarrow> bool" where
  "pixels_differ cur prev g =
     (case g of (x, y, w, h) \<Rightarrow>
        \<exists>r\<in>{y..<y + h}. \<exists>c\<in>{x..<x + w}.
          frame_rows cur ! r ! c \<noteq> frame_rows prev ! r ! c)"

definition tile_at :: "'p screen_frame \<Rightarrow> nat \<times> nat \<times> nat \<times> nat \<Rightarrow> 'p list list tile" where
  "tile_at f g = (case g of (x, y, w, h) \<Rightarrow> get_tile f x y w h)"

text \<open>A run of one partitioner: each call with the frame it returned, if it returned one.\<close>

datatype 'p partitioner_call = Partition "'p screen_frame" | FullFrame "'p screen_frame"

fun is_partition :: "'p partitioner_call \<Rightarrow> bool" where
  "is_partition (Partition f) = True"
| "is_partition (FullFrame f) = False"

fun run_partitioner ::
  "'p partitioner \<Rightarrow> 'p partitioner_call list
     \<Rightarrow> ('p partitioner_call \<times> 'p list list delta_frame) list" where
  "run_partitioner P [] = []"
| "run_partitioner P (Partition f # calls) =
     (case partition_and_detect_changes P f of
        (Inl e, P') \<Rightarrow> run_partitioner P' calls
      | (Inr d, P') \<Rightarrow> (Partition f, d) # run_partitioner P' calls)"
| "run_partitioner P (FullFrame f # calls) =
     (case create_full_frame_delta P f of
        (d, P') \<Rightarrow> (FullFrame f, d) # run_partitioner P' calls)"

section \<open>StreamEngine.get_initial_payload and the viewer handshake\<close>

text \<open>
  \<open>get_initial_payload\<close> (core/engine.py) takes the next captured frame, makes the
  full-frame delta and encodes it.
\<close>

definition get_initial_payload ::
  "('p list list \<Rightarrow> byte list) \<Rightarrow> int \<Rightarrow> 'p partitioner \<Rightarrow> 'p screen_frame
     \<Rightarrow> (error + byte list) \<times> 'p partitioner" where
  "get_initial_payload enc now_ms P frame =
     (case create_full_frame_delta P frame of (delta, P') \<Rightarrow> (encode enc now_ms delta, P'))"

text \<open>
  What \<open>_ws_handler\<close> (air\_server\_app.py) sends a new viewer before it starts reading
  messages: the VERSION record, then \<open>init_frame\<close> as it came from
  \<open>get_initial_payload\<close>. An exception there, the 2 s timeout included, is logged and
  nothing more is sent.
\<close>

datatype ws_frame = Text string | Binary "byte list"

definition ws_handler_join :: "string \<Rightarrow> error + byte list \<Rightarrow> ws_frame list" where
  "ws_handler_join version_json init =
     Text version_json # (case init of Inl e \<Rightarrow> [] | Inr init_frame \<Rightarrow> [Binary init_frame])"

text \<open>
  The broadcast loop's keyframe path: \<open>pkt = bytearray(lossless); pkt[0] = 0x02\<close>, taken
  only when \<open>lossless\<close> is not empty.
\<close>

definition keyframe_packet :: "byte list \<Rightarrow> byte list" where
  "keyframe_packet lossless = lossless[0 := 2]"

section \<open>AdaptiveGovernor (core/adaptive_governor.py)\<close>

text \<open>
  Python's floats are modelled by exact rationals, and \<open>time.time()\<close> is the argument
  \<open>now\<close>, in seconds. A \<open>CLIENT_STATS\<close> message is a dictionary in which any key may be
  missing; \<open>dict_get\<close> is \<open>dict.get\<close> with its default.
\<close>

record client_stats =
  cs_fps :: "rat option"
  cs_avg_decode_ms :: "rat option"
  cs_pending_tiles :: "rat option"
  cs_mode :: "string option"
  cs_battery :: "rat option"
  cs_is_charging :: "bool option"
  cs_bandwidth_kbps :: "rat option"
  cs_backpressure :: "string option"

definition dict_get :: "'a option \<Rightarrow> 'a \<Rightarrow> 'a" where
  "dict_get v d = (case v of None \<Rightarrow> d | Some x \<Rightarrow> x)"

record governor =
  gov_mode :: string
  tier :: string
  target_fps :: int
  target_frame_time :: rat
  current_quality :: rat
  min_quality :: rat
  max_quality :: rat
  current_tile_size :: int
  last_update_time :: rat
  last_applied_quality :: rat
  last_mode :: string
  last_battery :: rat
  last_is_charging :: bool
  last_fps :: rat
  foveated_radius :: int

text \<open>Attributes that \<open>__init__\<close> sets and nothing changes afterwards.\<close>

definition quality_deadband :: rat where
  "quality_deadband = 5"

definition min_foveated_radius :: int where
  "min_foveated_radius = 80"

definition max_foveated_radius :: int where
  "max_foveated_radius = 400"

text \<open>The \<open>MODES\<close> table: fps, min\_q, max\_q, target\_q.\<close>

definition MODES :: "string \<Rightarrow> (int \<times> rat \<times> rat \<times> rat) option" where
  "MODES m =
     (if m = ''GAMING'' then Some (60, 30, 80, 65)
      else if m = ''BALANCED'' then Some (45, 20, 90, 75)
      else if m = ''STUDIO'' then Some (30, 50, 100, 95)
      else None)"

definition governor_init :: "string \<Rightarrow> string \<Rightarrow> rat \<Rightarrow> governor" where
  "governor_init mode tier_upper now =
     (let m = (if MODES mode \<noteq> None then mode else ''BALANCED'');
          cfg = (case MODES m of Some c \<Rightarrow> c | None \<Rightarrow> (45, 20, 90, 75));
          fps = (if tier_upper = ''AIR'' then 20 else fst cfg)
      in \<lparr>gov_mode = m, tier = tier_upper, target_fps = fps,
          target_frame_time = 1000 / of_int fps,
          current_quality = snd (snd (snd cfg)),
          min_quality = fst (snd cfg), max_quality = fst (snd (snd cfg)),
          current_tile_size = 128, last_update_time = now,
          last_applied_quality = snd (snd (snd cfg)),
          last_mode = ''NORMAL'', last_battery = 100, last_is_charging = True,
          last_fps = 0, foveated_radius = 200\<rparr>)"

text \<open>
  \<open>update\<close>, section by section as the source numbers them. The statistics are stored
  and the target frame rate is set from the viewer's mode:
\<close>

definition update_target_fps :: "governor \<Rightarrow> client_stats \<Rightarrow> governor" where
  "update_target_fps g stats =
     (let fps = dict_get (cs_fps stats) 60;
          mode = dict_get (cs_mode stats) ''NORMAL'';
          g1 = g\<lparr>last_mode := mode,
                 last_battery := dict_get (cs_battery stats) 100,
                 last_is_charging := dict_get (cs_is_charging stats) True,
                 last_fps := fps\<rparr>;
          g2 = (if tier g1 = ''AIR''
                then g1\<lparr>target_fps := (if mode = ''SUPER_ECO'' then 10 else 20)\<rparr>
                else g1)
      in g2\<lparr>target_frame_time := 1000 / of_int (target_fps g2)\<rparr>)"

text \<open>The error metric:\<close>

definition queue_pressure :: "client_stats \<Rightarrow> rat" where
  "queue_pressure stats = max 0 (dict_get (cs_pending_tiles stats) 0 - 20) / 50"

definition decode_pressure :: "client_stats \<Rightarrow> rat" where
  "decode_pressure stats =
     (let decode_pressure0 = max 0 (dict_get (cs_avg_decode_ms stats) 0 - 10) / 20;
          bandwidth_kbps = dict_get (cs_bandwidth_kbps stats) 0;
          decode_pressure1 = (if bandwidth_kbps > 5000 then decode_pressure0 + 3 / 10
                              else decode_pressure0)
      in if cs_backpressure stats = Some ''heavy'' then decode_pressure1 + 1 / 2
         else decode_pressure1)"

definition total_pressure :: "client_stats \<Rightarrow> rat" where
  "total_pressure stats = queue_pressure stats + decode_pressure stats"

text \<open>The foveated radius, for the FLOW tier only:\<close>

definition update_foveated_radius :: "governor \<Rightarrow> client_stats \<Rightarrow> governor" where
  "update_foveated_radius g stats =
     (if tier g = ''FLOW'' then
        (if total_pressure stats > 3 / 10
         then g\<lparr>foveated_radius := max min_foveated_radius (foveated_radius g - 40)\<rparr>
         else if total_pressure stats < 1 / 20
         then g\<lparr>foveated_radius := min max_foveated_radius (foveated_radius g + 10)\<rparr>
         else g)
      else g)"

text \<open>The quality, with its clamp and its hysteresis check:\<close>

definition update_quality :: "governor \<Rightarrow> client_stats \<Rightarrow> governor" where
  "update_quality g stats =
     (let new_quality0 = (if total_pressure stats > 1 / 10
                          then current_quality g / (1 + min (total_pressure stats) (1 / 2))
                          else current_quality g + 2);
          new_quality = max (min_quality g) (min (max_quality g) new_quality0)
      in if \<bar>new_quality - last_applied_quality g\<bar> > quality_deadband
            \<or> (new_quality = min_quality g \<and> last_applied_quality g \<noteq> min_quality g)
            \<or> (new_quality = max_quality g \<and> last_applied_quality g \<noteq> max_quality g)
         then g\<lparr>current_quality := new_quality, last_applied_quality := new_quality\<rparr>
         else g)"

text \<open>The tile size:\<close>

definition update_tile_size :: "governor \<Rightarrow> client_stats \<Rightarrow> governor" where
  "update_tile_size g stats =
     (if decode_pressure stats > 1 / 2
      then g\<lparr>current_tile_size := (if decode_pressure stats > 4 / 5 then 512 else 256)\<rparr>
      else if total_pressure stats < 1 / 20
      then g\<lparr>current_tile_size := 128\<rparr>
      else g)"

definition update :: "governor \<Rightarrow> rat \<Rightarrow> client_stats \<Rightarrow> governor" where
  "update g now stats =
     (if now - last_update_time g < 1 / 2 then g
      else (update_tile_size
              (update_quality
                 (update_foveated_radius (update_target_fps g stats) stats) stats) stats)
           \<lparr>last_update_time := now\<rparr>)"

subsection \<open>The control law, in the specification's words\<close>

definition spec_queue_pressure :: "client_stats \<Rightarrow> rat" where
  "spec_queue_pressure stats = max 0 (dict_get (cs_pending_tiles stats) 0 - 20) / 50"

definition spec_decode_pressure :: "client_stats \<Rightarrow> rat" where
  "spec_decode_pressure stats =
     max 0 (dict_get (cs_avg_decode_ms stats) 0 - 10) / 20
     + (if dict_get (cs_bandwidth_kbps stats) 0 > 5000 then 3 / 10 else 0)
     + (if cs_backpressure stats = Some ''heavy'' then 1 / 2 else 0)"

definition spec_total_pressure :: "client_stats \<Rightarrow> rat" where
  "spec_total_pressure stats = spec_queue_pressure stats + spec_decode_pressure stats"

definition clamp :: "rat \<Rightarrow> rat \<Rightarrow> rat \<Rightarrow> rat" where
  "clamp lo hi v = max lo (min hi v)"

definition spec_new_quality :: "governor \<Rightarrow> client_stats \<Rightarrow> rat" where
  "spec_new_quality g stats =
     clamp (min_quality g) (max_quality g)
       (if spec_total_pressure stats > 1 / 10
        then current_quality g / (1 + min (spec_total_pressure stats) (1 / 2))
        else current_quality g + 2)"

definition spec_applies :: "governor \<Rightarrow> rat \<Rightarrow> bool" where
  "spec_applies g q \<longleftrightarrow>
     \<bar>q - last_applied_quality g\<bar> > 5
     \<or> (q = min_quality g \<and> last_applied_quality g \<noteq> min_quality g)
     \<or> (q = max_quality g \<and> last_applied_quality g \<noteq> max_quality g)"

section \<open>The server core: engine registry, blacklist and reset (air\_server\_app.py)\<close>

subsection \<open>Capture backends (core/capture.py)\<close>

datatype backend = VeloxRust | MSS

definition capture_name :: "backend \<Rightarrow> string" where
  "capture_name b = (case b of VeloxRust \<Rightarrow> ''VeloxRust (Native)'' | MSS \<Rightarrow> ''MSS (CPU)'')"

definition startswith :: "string \<Rightarrow> string \<Rightarrow> bool" where
  "startswith s prefix = (take (length prefix) s = prefix)"

text \<open>
  What the host offers when a capture source is constructed, at a time (in milliseconds)
  and for a monitor: whether \<open>import velox_core\<close> and \<open>VeloxRustCapture(...)\<close> succeed, and
  whether \<open>MSSCapture(...)\<close> does.
\<close>

record capture_env =
  native_available :: "int \<Rightarrow> int \<Rightarrow> bool"
  mss_available :: "int \<Rightarrow> int \<Rightarrow> bool"

text \<open>
  \<open>CaptureFactory.create\<close> tries the native source first and falls back to MSS on any
  exception there; an exception of the MSS constructor is the caller's. The argument
  \<open>optimize_pipeline\<close> is handed on to the source and takes no part in the choice.
\<close>

definition CaptureFactory_create :: "capture_env \<Rightarrow> int \<Rightarrow> int \<Rightarrow> bool \<Rightarrow> error + backend" where
  "CaptureFactory_create env now monitor_id optimize_pipeline =
     (if native_available env now monitor_id then Inr VeloxRust
      else if mss_available env now monitor_id then Inr MSS
      else Inl EngineInitError)"

record stream_engine =
  capture :: backend
  engine_monitor_id :: int
  engine_optimize_pipeline :: bool

definition StreamEngine :: "capture_env \<Rightarrow> int \<Rightarrow> int \<Rightarrow> bool \<Rightarrow> error + stream_engine" where
  "StreamEngine env now monitor_id optimize_pipeline =
     bind_err (CaptureFactory_create env now monitor_id optimize_pipeline) (\<lambda>c.
       Inr \<lparr>capture = c, engine_monitor_id = monitor_id,
            engine_optimize_pipeline = optimize_pipeline\<rparr>)"

subsection \<open>Server state\<close>

text \<open>
  Viewers (websockets) and tasks are numbered. The clock counts milliseconds and moves
  with the sleeps of the code; \<open>time.time()\<close> reads it.
\<close>

record engine_data =
  engine :: stream_engine
  clients :: "nat set"
  governor :: governor
  force_enhancement :: bool
  video_task :: nat
  audio_task :: nat

record server =
  cfg_monitor_id :: int
  cfg_optimize_capture_pipeline :: bool
  cfg_mode :: string
  engines :: "int \<rightharpoonup> engine_data"
  backend_blacklist :: "int \<rightharpoonup> int"
  clients_sending :: "nat \<rightharpoonup> nat"
  dashboards :: "nat set"
  clock :: int
  next_task :: nat
  cancelled_tasks :: "nat set"
  closed_viewers :: "nat set"
  sys_events :: "(string \<times> string) list"

text \<open>
  How a call ends: it returns, it raises, or it never returns. \<open>get_or_create_engine\<close>
  holds \<open>self._engine_lock\<close>, an \<open>asyncio.Lock\<close>, for its whole body, and its retry after a
  failed construction is a nested call that waits for the same lock: that call hangs.
\<close>

datatype 'a outcome = Returns 'a | Raises error | Hangs

definition asyncio_sleep :: "int \<Rightarrow> server \<Rightarrow> server" where
  "asyncio_sleep ms s = s\<lparr>clock := clock s + ms\<rparr>"

definition in_cool_down :: "server \<Rightarrow> int \<Rightarrow> bool" where
  "in_cool_down s monitor_id =
     (case backend_blacklist s monitor_id of
        None \<Rightarrow> False
      | Some t \<Rightarrow> clock s - t < 60000)"

text \<open>Lines 101 to 105: an engine already registered for the monitor is replaced.\<close>

definition drop_old_engine :: "int \<Rightarrow> server \<Rightarrow> server" where
  "drop_old_engine monitor_id s =
     (case engines s monitor_id of
        None \<Rightarrow> s
      | Some old \<Rightarrow>
          asyncio_sleep 500
            (s\<lparr>engines := (engines s)(monitor_id := None),
               cancelled_tasks := cancelled_tasks s \<union> {video_task old, audio_task old}\<rparr>))"

text \<open>Lines 108 to 126: the new engine, the blacklist trigger, the slot.\<close>

definition register_engine :: "int \<Rightarrow> bool \<Rightarrow> bool \<Rightarrow> stream_engine \<Rightarrow> server
    \<Rightarrow> engine_data \<times> server" where
  "register_engine monitor_id force_compat optimize eng s =
     (let s1 = (if \<not> force_compat \<and> optimize
                   \<and> startswith (capture_name (capture eng)) ''MSS''
                then s\<lparr>backend_blacklist := (backend_blacklist s)(monitor_id \<mapsto> clock s)\<rparr>
                else s);
          gov = governor_init (cfg_mode s1) ''AIR'' (of_int (clock s1) / 1000);
          engine_data = \<lparr>engine = eng, clients = {}, governor = gov,
                          force_enhancement = True,
                          video_task = next_task s1, audio_task = next_task s1 + 1\<rparr>
      in (engine_data,
          s1\<lparr>engines := (engines s1)(monitor_id \<mapsto> engine_data),
             next_task := next_task s1 + 2\<rparr>))"

definition get_or_create_engine ::
  "capture_env \<Rightarrow> int \<Rightarrow> bool \<Rightarrow> server \<Rightarrow> engine_data outcome \<times> server" where
  "get_or_create_engine env monitor_id force_compat0 s =
     (let force_compat = (if \<not> force_compat0 \<and> in_cool_down s monitor_id then True
                          else force_compat0)
      in case (engines s monitor_id, force_compat) of
           (Some existing, False) \<Rightarrow> (Returns existing, s)
         | _ \<Rightarrow>
             let optimize = (if force_compat then False else cfg_optimize_capture_pipeline s);
                 s1 = drop_old_engine monitor_id s
             in case StreamEngine env (clock s1) monitor_id optimize of
                  Inr eng \<Rightarrow>
                    (case register_engine monitor_id force_compat optimize eng s1 of
                       (engine_data, s2) \<Rightarrow> (Returns engine_data, s2))
                | Inl e \<Rightarrow>
                    let s2 = s1\<lparr>backend_blacklist :=
                                  (backend_blacklist s1)(monitor_id \<mapsto> clock s1)\<rparr>
                    in if \<not> force_compat then (Hangs, asyncio_sleep 500 s2)
                       else (Raises e, s2))"

subsection \<open>The broadcast loop's reaction to a capture error\<close>




subsection \<open>Software reset\<close>




section \<open>Per-viewer fan-out of one engine slot (air\_server\_app.py)\<close>

text \<open>
  The asyncio tasks that send to the viewers of one engine slot, as a transition system
  whose steps are the stretches of code between two \<open>await\<close>s: the slot's broadcast loop,
  the \<open>_safe_send\<close> tasks it spawns, the handlers of viewers that join and leave, the
  replacement of the engine and the software reset. The slot is served by one broadcast
  loop at a time, the one \<open>get_or_create_engine\<close> starts. Viewers and tasks are numbered.
\<close>





text \<open>
  \<open>_safe_send\<close> (lines 477 to 483): whether the socket was not open, the send went
  through, the 1 s timeout struck or the transport raised, the \<open>finally\<close> clause pops the
  viewer's entry of \<open>_clients_sending\<close>.
\<close>

datatype send_outcome = NotOpen | Sent | TimedOut | TransportError










text \<open>
  A toy codec and a small delta frame, used to evaluate the model on concrete inputs: the
  image is a number, its encoding the one byte holding it.
\<close>

definition toy_enc :: "nat \<Rightarrow> byte list" where
  "toy_enc img = [of_nat img]"

definition toy_dec :: "byte list \<Rightarrow> nat option" where
  "toy_dec bs = (case bs of [b] \<Rightarrow> Some (unat b) | _ \<Rightarrow> None)"

definition example_tile :: "nat tile" where
  "example_tile = \<lparr>tile_x = 1, tile_y = 2, tile_width = 3, tile_height = 4, image_data = 7\<rparr>"

definition example_delta :: "nat delta_frame" where
  "example_delta =
     \<lparr>frame_number = 1, changed_tiles = [example_tile], full_frame_fallback = False\<rparr>"

definition example_payload :: "byte list" where
  "example_payload =
     [1, 232, 3, 0, 0, 0, 0, 0, 0, 1, 0, 0, 0, 1, 0, 0, 0, 2, 0, 0, 0, 3, 0, 0, 0,
      4, 0, 0, 0, 1, 0, 0, 0, 7]"

definition malformed_delta :: "nat delta_frame" where
  "malformed_delta = \<lparr>frame_number = 1, changed_tiles = [], full_frame_fallback = True\<rparr>"

text \<open>Two 3\<times>2 frames of one-channel pixels that differ in their last column only.\<close>

definition example_frame :: "nat screen_frame" where
  "example_frame =
     \<lparr>frame_width = 3, frame_height = 2, frame_channels = 1,
      frame_rows = [[1, 2, 3], [4, 5, 6]]\<rparr>"

definition example_frame' :: "nat screen_frame" where
  "example_frame' =
     \<lparr>frame_width = 3, frame_height = 2, frame_channels = 1,
      frame_rows = [[1, 2, 9], [4, 5, 6]]\<rparr>"

definition example_partitioner :: "nat partitioner" where
  "example_partitioner =
     \<lparr>p_tile_size = 2, p_last_frame_np = Some example_frame, p_frame_number = 0\<rparr>"

definition toy_enc_rows :: "nat list list \<Rightarrow> byte list" where
  "toy_enc_rows rows = map of_nat (concat rows)"

definition example_initial_frame :: "byte list" where
  "example_initial_frame =
     [1, 232, 3, 0, 0, 0, 0, 0, 0, 0, 0, 0, 0, 3, 0, 0, 0, 2, 0, 0, 0, 6, 0, 0, 0,
      1, 2, 3, 4, 5, 6]"

text \<open>A partitioner as \<open>TilePartitioner()\<close> makes it, and three calls on it.\<close>

definition fresh_partitioner :: "nat partitioner" where
  "fresh_partitioner = \<lparr>p_tile_size = 64, p_last_frame_np = None, p_frame_number = 0\<rparr>"

definition example_calls :: "nat partitioner_call list" where
  "example_calls = [Partition example_frame, FullFrame example_frame, Partition example_frame']"










section \<open>Packing and unpacking are inverse\<close>

lemma length_le_bytes: "length (le_bytes k v) = k"
  by (induction k arbitrary: v) auto

lemma le_value_le_bytes: "le_value (le_bytes k v) = v mod 256 ^ k"
proof (induction k arbitrary: v)
  case 0 show ?case by simp
next
  case (Suc k)
  have "v mod (256 * 256 ^ k) = 256 * (v div 256 mod 256 ^ k) + v mod 256"
    by (rule zmod_zmult2_eq) simp
  then show ?case using Suc by (simp add: uint_word_of_int)
qed

lemma pow256: "0 < k \<Longrightarrow> (256::int) ^ k = 2 * 2 ^ (8 * k - 1) \<and> (2::int) ^ (8 * k) = 2 * 2 ^ (8 * k - 1)"
proof -
  assume k: "0 < k"
  have "(256::int) ^ k = (2 ^ 8) ^ k" by simp
  also have "\<dots> = 2 ^ (8 * k)" by (simp only: power_mult)
  finally have a: "(256::int) ^ k = 2 ^ (8 * k)" .
  from k have "8 * k = Suc (8 * k - 1)" by simp
  then have "(2::int) ^ (8 * k) = 2 * 2 ^ (8 * k - 1)" by (metis power_Suc)
  with a show ?thesis by simp
qed

lemma to_signed_mod:
  assumes "0 < k" "- (2 ^ (8 * k - 1)) \<le> v" "v < 2 ^ (8 * k - 1)"
  shows "to_signed k (v mod 256 ^ k) = v"
proof -
  define H :: int where "H = 2 ^ (8 * k - 1)"
  have e: "(256::int) ^ k = 2 * H" "(2::int) ^ (8 * k) = 2 * H"
    using pow256 [OF assms(1)] by (simp_all add: H_def)
  have r: "- H \<le> v" "v < H" using assms by (simp_all add: H_def)
  have ts: "to_signed k u = (if H \<le> u then u - 2 * H else u)" for u
    unfolding to_signed_def e(2) H_def [symmetric] by (rule refl)
  show ?thesis
  proof (cases "0 \<le> v")
    case True
    with r have "v mod (2 * H) = v" by simp
    with r show ?thesis by (simp add: ts e(1))
  next
    case False
    with r have "(v + 2 * H) mod (2 * H) = v + 2 * H" by (intro mod_pos_pos_trivial) simp_all
    then have "v mod (2 * H) = v + 2 * H" by (simp only: mod_add_self2)
    with r show ?thesis by (simp add: ts e(1))
  qed
qed

lemma unpack_pack_signed:
  assumes "0 < k" "pack_signed k v = Inr bs"
  shows "unpack_signed k (Suc 0) bs = Inr [v]"
  using assms
  by (auto simp: pack_signed_def unpack_signed_def length_le_bytes le_value_le_bytes
      to_signed_mod split: if_splits)

lemma unpack_pack_i32: "pack_i32 v = Inr bs \<Longrightarrow> unpack_i32 bs = Inr v"
  using unpack_pack_signed [of 4 v bs] by (simp add: pack_i32_def unpack_i32_def)

lemma unpack_pack_i64: "pack_i64 v = Inr bs \<Longrightarrow> unpack_i64 bs = Inr v"
  using unpack_pack_signed [of 8 v bs] by (simp add: pack_i64_def unpack_i64_def)

lemma pack_i32_length: "pack_i32 v = Inr bs \<Longrightarrow> length bs = 4"
  by (auto simp: pack_i32_def pack_signed_def length_le_bytes split: if_splits)

lemma pack_i64_length: "pack_i64 v = Inr bs \<Longrightarrow> length bs = 8"
  by (auto simp: pack_i64_def pack_signed_def length_le_bytes split: if_splits)

lemma unpack_i32s_2:
  assumes "pack_i32 a = Inr ba" "pack_i32 b = Inr bb"
  shows "unpack_i32s 2 (ba @ bb) = Inr [a, b]"
proof -
  have l: "length ba = 4" "length bb = 4" using assms by (simp_all add: pack_i32_length)
  have "unpack_signed 4 (Suc 0) ba = Inr [a]" "unpack_signed 4 (Suc 0) bb = Inr [b]"
    using assms by (simp_all add: unpack_pack_signed pack_i32_def)
  then show ?thesis using l
    by (simp add: unpack_i32s_def unpack_signed_def numeral_2_eq_2 upt_rec split: if_splits)
qed

lemma unpack_i32s_4:
  assumes "pack_i32 a = Inr ba" "pack_i32 b = Inr bb" "pack_i32 c = Inr bc" "pack_i32 d = Inr bd"
  shows "unpack_i32s 4 (ba @ bb @ bc @ bd) = Inr [a, b, c, d]"
proof -
  have l: "length ba = 4" "length bb = 4" "length bc = 4" "length bd = 4"
    using assms by (simp_all add: pack_i32_length)
  have "unpack_signed 4 1 ba = Inr [a]" "unpack_signed 4 1 bb = Inr [b]"
    "unpack_signed 4 (Suc 0) bc = Inr [c]" "unpack_signed 4 (Suc 0) bd = Inr [d]"
    using assms by (simp_all add: unpack_pack_signed pack_i32_def)
  then show ?thesis using l
    by (simp add: unpack_i32s_def unpack_signed_def upt_rec split: if_splits)
qed

lemma bind_err_Inr: "bind_err m f = Inr r \<longleftrightarrow> (\<exists>v. m = Inr v \<and> f v = Inr r)"
  by (cases m) (simp_all add: bind_err_def)

lemma py_slice_mid:
  assumes "a = int (length pre)" "b = a + int (length mid)"
  shows "py_slice (pre @ mid @ post) a b = mid"
  using assms by (simp add: py_slice_def py_index_def)

lemma bind_err_simps: "bind_err (Inl e) f = Inl e" "bind_err (Inr v) f = f v"
  by (simp_all add: bind_err_def)

lemma bind_err_weak_cong: "m = m' \<Longrightarrow> bind_err m f = bind_err m' f"
  by simp

lemma le_bytes_4: "le_bytes 4 v = [word_of_int v, word_of_int (v div 256), word_of_int (v div 256 div 256), word_of_int (v div 256 div 256 div 256)]"
  by (simp add: numeral_eq_Suc)

lemma le_bytes_8: "le_bytes 8 v = [word_of_int v, word_of_int (v div 256), word_of_int (v div 256 div 256), word_of_int (v div 256 div 256 div 256),
   word_of_int (v div 256 div 256 div 256 div 256), word_of_int (v div 256 div 256 div 256 div 256 div 256), 
   word_of_int (v div 256 div 256 div 256 div 256 div 256 div 256), word_of_int (v div 256 div 256 div 256 div 256 div 256 div 256 div 256)]"
  by (simp add: numeral_eq_Suc)

lemma decode_tiles_short:
  "0 < n \<Longrightarrow> length (py_slice data off (off + 16)) \<noteq> 16
     \<Longrightarrow> decode_tiles dec data n off = Inl StructError"
  by (cases n) (simp_all add: unpack_i32s_def unpack_signed_def bind_err_def)

lemma example_encoded: "encode toy_enc 1000 example_delta = Inr example_payload"
  by (simp add: encode_def example_delta_def example_tile_def example_payload_def toy_enc_def
      bind_err_simps pack_i32_def pack_i64_def pack_signed_def le_bytes_4 le_bytes_8)

section \<open>The encoder on a malformed full-frame delta\<close>

text \<open>
  C10. For a delta frame whose \<open>full_frame_fallback\<close> flag is set and whose tile list does not
  hold exactly one tile, \<open>WebPEncoder.encode\<close> returns the empty byte string (no type tag, no
  timestamp) and raises nothing; a caller that forwards the value, as \<open>_ws_handler\<close> does
  with its initial frame, sends an empty binary frame. The clock reading is taken to fit
  the 64-bit timestamp field, which is packed before the flag is looked at.
\<close>

theorem encode_malformed_fallback_empty:
  assumes "full_frame_fallback d" and "length (changed_tiles d) \<noteq> 1"
    and "- (2 ^ 63) \<le> now_ms" and "now_ms < 2 ^ 63"
  shows "encode enc now_ms d = Inr []
         \<and> ws_handler_join version_json (encode enc now_ms d) = [Text version_json, Binary []]"
  using assms
  by (simp add: encode_def bind_err_def pack_i64_def pack_signed_def ws_handler_join_def)

theorem encode_malformed_fallback_empty_witness:
  "full_frame_fallback malformed_delta \<and> length (changed_tiles malformed_delta) \<noteq> 1
   \<and> - (2 ^ 63) \<le> (1000::int) \<and> (1000::int) < 2 ^ 63
   \<and> encode toy_enc 1000 malformed_delta = Inr []
   \<and> ws_handler_join ''VERSION'' (encode toy_enc 1000 malformed_delta)
       = [Text ''VERSION'', Binary []]"
  using encode_malformed_fallback_empty [of malformed_delta 1000 toy_enc "''VERSION''"]
  by (simp add: malformed_delta_def ws_handler_join_def)

section \<open>Round trip through the wire format\<close>

lemma decode_encode_tiles:
  assumes "encode_tiles enc ts = Inr parts"
    and "\<forall>t\<in>set ts. dec (enc (image_data t)) \<noteq> None"
  shows "\<exists>ts'. decode_tiles dec (pre @ parts) (length ts) (int (length pre)) = Inr ts'
           \<and> map tile_geometry ts' = map tile_geometry ts"
  using assms
proof (induction ts arbitrary: pre parts)
  case Nil
  then show ?case by simp
next
  case (Cons t ts)
  let ?img = "enc (image_data t)"
  from Cons.prems(1) obtain bx bv bw bh bl rest where
    p: "pack_i32 (tile_x t) = Inr bx" "pack_i32 (tile_y t) = Inr bv"
       "pack_i32 (tile_width t) = Inr bw" "pack_i32 (tile_height t) = Inr bh"
       "pack_i32 (int (length ?img)) = Inr bl" "encode_tiles enc ts = Inr rest"
    and parts: "parts = bx @ bv @ bw @ bh @ bl @ ?img @ rest"
    by (auto simp: bind_err_Inr)
  let ?hdr = "bx @ bv @ bw @ bh"
  let ?off = "int (length pre)"
  have len: "length ?hdr = 16" "length bl = 4"
    using p by (simp_all add: pack_i32_length)
  have s1: "py_slice (pre @ parts) ?off (?off + 16) = ?hdr"
    using py_slice_mid [of ?off pre "?off + 16" ?hdr "bl @ ?img @ rest"] len
    by (simp add: parts)
  have s2: "py_slice (pre @ parts) (?off + 16) (?off + 20) = bl"
    using py_slice_mid [of "?off + 16" "pre @ ?hdr" "?off + 20" bl "?img @ rest"] len
    by (simp add: parts)
  have s3: "py_slice (pre @ parts) (?off + 20) (?off + 20 + int (length ?img)) = ?img"
    using py_slice_mid [of "?off + 20" "pre @ ?hdr @ bl" "?off + 20 + int (length ?img)" ?img rest] len
    by (simp add: parts)
  have u1: "unpack_i32s 4 ?hdr = Inr [tile_x t, tile_y t, tile_width t, tile_height t]"
    using p by (simp add: unpack_i32s_4)
  have u2: "unpack_i32 bl = Inr (int (length ?img))"
    using p by (simp add: unpack_pack_i32)
  from Cons.prems(2) obtain img where img: "dec ?img = Some img" by auto
  from Cons.prems(2) have "\<forall>t\<in>set ts. dec (enc (image_data t)) \<noteq> None" by simp
  then have "\<exists>ts'. decode_tiles dec ((pre @ ?hdr @ bl @ ?img) @ rest) (length ts)
                 (int (length (pre @ ?hdr @ bl @ ?img))) = Inr ts'
               \<and> map tile_geometry ts' = map tile_geometry ts"
    by (rule Cons.IH [OF p(6)])
  moreover have "int (length (pre @ ?hdr @ bl @ ?img)) = ?off + 20 + int (length ?img)"
    using len by simp
  moreover have "(pre @ ?hdr @ bl @ ?img) @ rest = pre @ parts"
    by (simp add: parts)
  ultimately obtain ts' where
    ih: "decode_tiles dec (pre @ parts) (length ts) (?off + 20 + int (length ?img)) = Inr ts'"
        "map tile_geometry ts' = map tile_geometry ts"
    by (auto simp only: )
  let ?t' = "\<lparr>tile_x = tile_x t, tile_y = tile_y t, tile_width = tile_width t,
               tile_height = tile_height t, image_data = img\<rparr>"
  have "decode_tiles dec (pre @ parts) (length (t # ts)) ?off = Inr (?t' # ts')"
    using s1 s2 s3 u1 u2 img ih(1) by (simp add: bind_err_def)
  moreover have "tile_geometry ?t' = tile_geometry t"
    by (simp add: tile_geometry_def)
  ultimately show ?case using ih(2) by simp
qed

text \<open>
  C2, as the code has it. The decoder reads the timestamp from byte 0, so it is given the
  payload without its type tag, as the client's receive loop does (\<open>payload = message[1:]\<close>).
  For a delta frame that the encoder accepts, that is either a full-frame fallback with its
  one tile at the origin or an ordinary delta with at least one tile, and whose encoded tile
  images \<open>Image.open\<close> accepts, decoding the encoded payload without its tag gives a frame
  with the same fallback flag, the same number of tiles, the same \<open>(x, y, width, height)\<close>
  for each tile in order, and the encode-time millisecond timestamp divided by 1000.
\<close>

theorem decode_encode_roundtrip:
  assumes enc: "encode enc now_ms d = Inr payload"
    and shape: "if full_frame_fallback d
                then \<exists>t. changed_tiles d = [t] \<and> tile_x t = 0 \<and> tile_y t = 0
                else changed_tiles d \<noteq> []"
    and codec: "\<forall>t\<in>set (changed_tiles d). dec (enc (image_data t)) \<noteq> None"
  shows "\<exists>d'. decode dec (tl payload) = Inr (d', of_int now_ms / 1000)
           \<and> full_frame_fallback d' = full_frame_fallback d
           \<and> length (changed_tiles d') = length (changed_tiles d)
           \<and> map tile_geometry (changed_tiles d') = map tile_geometry (changed_tiles d)"
proof (cases "full_frame_fallback d")
  case True
  with shape obtain t where t: "changed_tiles d = [t]" "tile_x t = 0" "tile_y t = 0" by auto
  let ?img = "enc (image_data t)"
  from enc True t obtain bt b0 bw bh bl where
    p: "pack_i64 now_ms = Inr bt" "pack_i32 0 = Inr b0" "pack_i32 (tile_width t) = Inr bw"
       "pack_i32 (tile_height t) = Inr bh" "pack_i32 (int (length ?img)) = Inr bl"
    and payload: "payload = 1 # bt @ b0 @ bw @ bh @ bl @ ?img"
    by (auto simp: encode_def bind_err_Inr Let_def)
  have len: "length bt = 8" "length b0 = 4" "length bw = 4" "length bh = 4" "length bl = 4"
    using p by (simp_all add: pack_i32_length pack_i64_length)
  have s1: "py_slice (tl payload) 0 8 = bt"
    using py_slice_mid [of 0 "[]" 8 bt "b0 @ bw @ bh @ bl @ ?img"] len by (simp add: payload)
  have s2: "py_slice (tl payload) 8 12 = b0"
    using py_slice_mid [of 8 bt 12 b0 "bw @ bh @ bl @ ?img"] len by (simp add: payload)
  have s3: "py_slice (tl payload) 12 20 = bw @ bh"
    using py_slice_mid [of 12 "bt @ b0" 20 "bw @ bh" "bl @ ?img"] len by (simp add: payload)
  have s4: "py_slice (tl payload) 20 24 = bl"
    using py_slice_mid [of 20 "bt @ b0 @ bw @ bh" 24 bl ?img] len by (simp add: payload)
  have s5: "py_slice (tl payload) 24 (24 + int (length ?img)) = ?img"
    using py_slice_mid [of 24 "bt @ b0 @ bw @ bh @ bl" "24 + int (length ?img)" ?img "[]"] len
    by (simp add: payload)
  from codec t obtain img where img: "dec ?img = Some img" by auto
  have "decode dec (tl payload) =
          Inr (\<lparr>frame_number = 0,
                 changed_tiles = [\<lparr>tile_x = 0, tile_y = 0, tile_width = tile_width t,
                                   tile_height = tile_height t, image_data = img\<rparr>],
                 full_frame_fallback = True\<rparr>, of_int now_ms / 1000)"
    using s1 s2 s3 s4 s5 img p
    by (simp add: decode_def bind_err_def unpack_pack_i32 unpack_pack_i64 unpack_i32s_2)
  then show ?thesis using True t by (simp add: tile_geometry_def)
next
  case False
  with shape have ne: "changed_tiles d \<noteq> []" by simp
  let ?n = "length (changed_tiles d)"
  from enc False obtain bt bn parts where
    p: "pack_i64 now_ms = Inr bt" "pack_i32 (int ?n) = Inr bn"
       "encode_tiles enc (changed_tiles d) = Inr parts"
    and payload: "payload = 1 # bt @ bn @ parts"
    by (auto simp: encode_def bind_err_Inr Let_def)
  have len: "length bt = 8" "length bn = 4"
    using p by (simp_all add: pack_i32_length pack_i64_length)
  have s1: "py_slice (tl payload) 0 8 = bt"
    using py_slice_mid [of 0 "[]" 8 bt "bn @ parts"] len by (simp add: payload)
  have s2: "py_slice (tl payload) 8 12 = bn"
    using py_slice_mid [of 8 bt 12 bn parts] len by (simp add: payload)
  from decode_encode_tiles [OF p(3) codec, of "bt @ bn"] obtain ts' where
    ts': "decode_tiles dec (tl payload) ?n 12 = Inr ts'"
         "map tile_geometry ts' = map tile_geometry (changed_tiles d)"
    using len by (auto simp: payload)
  from ts'(2) have l: "length ts' = ?n" by (metis length_map)
  have "decode dec (tl payload) =
          Inr (\<lparr>frame_number = 0, changed_tiles = ts', full_frame_fallback = False\<rparr>,
               of_int now_ms / 1000)"
    using s1 s2 ts'(1) p ne
    by (simp add: decode_def bind_err_def unpack_pack_i32 unpack_pack_i64)
  then show ?thesis using False ts'(2) l by simp
qed

theorem decode_encode_roundtrip_witness:
  "encode toy_enc 1000 example_delta = Inr example_payload
   \<and> (if full_frame_fallback example_delta
        then \<exists>t. changed_tiles example_delta = [t] \<and> tile_x t = 0 \<and> tile_y t = 0
        else changed_tiles example_delta \<noteq> [])
   \<and> toy_dec (toy_enc (image_data example_tile)) \<noteq> None
   \<and> (\<exists>d'. decode toy_dec (tl example_payload) = Inr (d', of_int 1000 / 1000)
           \<and> full_frame_fallback d' = full_frame_fallback example_delta
           \<and> length (changed_tiles d') = length (changed_tiles example_delta)
           \<and> map tile_geometry (changed_tiles d')
               = map tile_geometry (changed_tiles example_delta))"
proof -
  have a: "encode toy_enc 1000 example_delta = Inr example_payload"
    by (rule example_encoded)
  have b: "if full_frame_fallback example_delta
           then \<exists>t. changed_tiles example_delta = [t] \<and> tile_x t = 0 \<and> tile_y t = 0
           else changed_tiles example_delta \<noteq> []"
    by (simp add: example_delta_def)
  have c: "\<forall>t\<in>set (changed_tiles example_delta). toy_dec (toy_enc (image_data t)) \<noteq> None"
    by (simp add: example_delta_def example_tile_def toy_enc_def toy_dec_def)
  have c': "toy_dec (toy_enc (image_data example_tile)) \<noteq> None"
    by (simp add: example_tile_def toy_enc_def toy_dec_def)
  from decode_encode_roundtrip [OF a b c] a b c' show ?thesis by blast
qed

text \<open>
  The claim as stated fails: given the encoder's output as it is, the decoder takes the
  tag for the first timestamp byte, reads a tile count of 256 and runs off the end of the
  payload.
\<close>

theorem decode_encode_direct_counterexample:
  "encode toy_enc 1000 example_delta = Inr example_payload
   \<and> decode toy_dec example_payload = Inl StructError"
proof -
  have n: "nat 256 = Suc 255" by simp
  have sl: "py_slice example_payload 0 8 = [1, 232, 3, 0, 0, 0, 0, 0]"
    "py_slice example_payload 8 12 = [0, 1, 0, 0]"
    "py_slice example_payload 12 28 = [0, 1, 0, 0, 0, 2, 0, 0, 0, 3, 0, 0, 0, 4, 0, 0]"
    "py_slice example_payload 28 32 = [0, 1, 0, 0]"
    "py_slice example_payload 32 288 = [0, 7]"
    by (simp_all add: py_slice_def py_index_def example_payload_def)
  have s: "decode_tiles toy_dec example_payload 255 288 = Inl StructError"
    by (rule decode_tiles_short) (simp_all add: py_slice_def py_index_def example_payload_def)
  have "decode_tiles toy_dec example_payload (Suc 255) 12 = Inl StructError"
    by (subst decode_tiles.simps(2))
       (simp add: s sl toy_dec_def bind_err_simps unpack_i32_def unpack_i32s_def
          unpack_signed_def to_signed_def)
  then have "decode toy_dec example_payload = Inl StructError"
    by (simp add: decode_def n sl bind_err_simps unpack_i32_def unpack_i64_def
        unpack_signed_def to_signed_def)
  with example_encoded show ?thesis by simp
qed

section \<open>The tile partitioner finds exactly the changed grid tiles\<close>

lemma grid_bound:
  assumes "0 < step"
  shows "(k::nat) * step < stop \<longleftrightarrow> k < (stop + step - 1) div step"
proof -
  have "k < (stop + step - 1) div step \<longleftrightarrow> Suc k \<le> (stop + step - 1) div step" by auto
  also have "\<dots> \<longleftrightarrow> Suc k * step \<le> stop + step - 1"
    using assms by (simp only: less_eq_div_iff_mult_less_eq)
  also have "\<dots> \<longleftrightarrow> k * step < stop" using assms by auto
  finally show ?thesis by simp
qed

lemma range_up_from:
  assumes "0 < step"
  shows "range_up (k * step) stop step = map (\<lambda>i. i * step) [k..<(stop + step - 1) div step]"
proof (induction "(stop + step - 1) div step - k" arbitrary: k)
  case 0
  then have "\<not> k < (stop + step - 1) div step" by simp
  then have "\<not> k * step < stop" using grid_bound [OF assms] by simp
  with 0 show ?case by (subst range_up.simps) simp
next
  case (Suc d)
  then have lt: "k < (stop + step - 1) div step" by simp
  then have "k * step < stop" using grid_bound [OF assms] by simp
  moreover from Suc(2) have "d = (stop + step - 1) div step - Suc k" by simp
  then have "range_up (Suc k * step) stop step
      = map (\<lambda>i. i * step) [Suc k..<(stop + step - 1) div step]"
    by (rule Suc(1))
  then have "range_up (k * step + step) stop step
      = map (\<lambda>i. i * step) [Suc k..<(stop + step - 1) div step]"
    by (simp add: add.commute)
  ultimately show ?case using assms lt
    by (subst range_up.simps) (simp add: upt_conv_Cons)
qed

lemma py_range_grid:
  "0 < step \<Longrightarrow> py_range stop step
     = Inr (map (\<lambda>i. i * nat step) [0..<(stop + nat step - 1) div nat step])"
  using range_up_from [of "nat step" 0 stop] by (simp add: py_range_def)

lemma ex_shift: "(\<exists>r\<in>{y..<y + h::nat}. Q r) \<longleftrightarrow> (\<exists>i<h. Q (y + i))"
proof
  assume "\<exists>r\<in>{y..<y + h}. Q r"
  then obtain r where "y \<le> r" "r < y + h" "Q r" by auto
  then have "r - y < h" "Q (y + (r - y))" by auto
  then show "\<exists>i<h. Q (y + i)" by blast
next
  assume "\<exists>i<h. Q (y + i)"
  then obtain i where i: "i < h" "Q (y + i)" by auto
  then have "y + i \<in> {y..<y + h}" by simp
  with i(2) show "\<exists>r\<in>{y..<y + h}. Q r" by blast
qed

lemma np_region_eq_iff:
  assumes "wf_frame cur" "wf_frame prev"
    and "frame_width prev = frame_width cur" "frame_height prev = frame_height cur"
    and "x + w \<le> frame_width cur" "y + h \<le> frame_height cur"
  shows "np_region cur x y w h \<noteq> np_region prev x y w h \<longleftrightarrow> pixels_differ cur prev (x, y, w, h)"
proof -
  let ?A = "frame_rows cur" and ?B = "frame_rows prev"
  have la: "length ?A = frame_height cur" "length ?B = frame_height cur"
    using assms by (simp_all add: wf_frame_def)
  have ra: "length (?A ! r) = frame_width cur" "length (?B ! r) = frame_width cur"
    if "r < frame_height cur" for r
    using assms that la by (simp_all add: wf_frame_def list_all_length)
  have len: "length (np_region cur x y w h) = h" "length (np_region prev x y w h) = h"
    using la assms(6) by (simp_all add: np_region_def)
  have row: "np_region cur x y w h ! i = take w (drop x (?A ! (y + i)))"
    "np_region prev x y w h ! i = take w (drop x (?B ! (y + i)))" if "i < h" for i
    using that la assms(6) by (simp_all add: np_region_def)
  have roweq: "take w (drop x (?A ! (y + i))) \<noteq> take w (drop x (?B ! (y + i)))
        \<longleftrightarrow> (\<exists>j<w. ?A ! (y + i) ! (x + j) \<noteq> ?B ! (y + i) ! (x + j))" if "i < h" for i
  proof -
    from that assms(6) have r: "y + i < frame_height cur" by simp
    have l: "length (take w (drop x (?A ! (y + i)))) = w" "length (take w (drop x (?B ! (y + i)))) = w"
      using ra [OF r] assms(5) by simp_all
    have n: "take w (drop x (?A ! (y + i))) ! j = ?A ! (y + i) ! (x + j)"
      "take w (drop x (?B ! (y + i))) ! j = ?B ! (y + i) ! (x + j)" if "j < w" for j
      using that ra [OF r] assms(5) by simp_all
    show ?thesis using l n by (metis nth_equalityI)
  qed
  have "np_region cur x y w h \<noteq> np_region prev x y w h
      \<longleftrightarrow> (\<exists>i<h. np_region cur x y w h ! i \<noteq> np_region prev x y w h ! i)"
    using len by (metis nth_equalityI)
  also have "\<dots> \<longleftrightarrow> (\<exists>i<h. take w (drop x (?A ! (y + i))) \<noteq> take w (drop x (?B ! (y + i))))"
    using row by auto
  also have "\<dots> \<longleftrightarrow> (\<exists>i<h. \<exists>j<w. ?A ! (y + i) ! (x + j) \<noteq> ?B ! (y + i) ! (x + j))"
    using roweq by auto
  also have "\<dots> \<longleftrightarrow> pixels_differ cur prev (x, y, w, h)"
    by (simp add: pixels_differ_def ex_shift)
  finally show ?thesis .
qed


lemma concat_map_if:
  "concat (map (\<lambda>a. if Q a then [f a] else []) xs) = map f (filter Q xs)"
  by (induction xs) simp_all

lemma tile_if_changed_grid:
  assumes wf: "wf_frame cur" "wf_frame prev"
    and dims: "frame_width prev = frame_width cur" "frame_height prev = frame_height cur"
    and t: "0 < t"
    and i: "i < (frame_width cur + t - 1) div t"
    and j: "j < (frame_height cur + t - 1) div t"
  shows "tile_if_changed cur prev t (i * t) (j * t) =
           (if pixels_differ cur prev
                 (i * t, j * t, min t (frame_width cur - i * t), min t (frame_height cur - j * t))
            then [tile_at cur
                 (i * t, j * t, min t (frame_width cur - i * t), min t (frame_height cur - j * t))]
            else [])"
proof -
  let ?w = "min t (frame_width cur - i * t)" and ?h = "min t (frame_height cur - j * t)"
  from i j have lt: "i * t < frame_width cur" "j * t < frame_height cur"
    using grid_bound [OF t] by simp_all
  with t have pos: "0 < ?w" "0 < ?h" by simp_all
  from lt have fit: "i * t + ?w \<le> frame_width cur" "j * t + ?h \<le> frame_height cur"
    by simp_all
  have "np_region cur (i * t) (j * t) ?w ?h \<noteq> np_region prev (i * t) (j * t) ?w ?h
          \<longleftrightarrow> pixels_differ cur prev (i * t, j * t, ?w, ?h)"
    by (rule np_region_eq_iff [OF wf dims fit])
  moreover from pos have "\<not> (?w \<le> 0 \<or> ?h \<le> 0)" by simp
  ultimately show ?thesis
    unfolding tile_if_changed_def Let_def tile_at_def
    by (simp only: if_False prod.case)
qed

lemma detect_changes_grid:
  assumes wf: "wf_frame cur" "wf_frame prev"
    and dims: "frame_width prev = frame_width cur" "frame_height prev = frame_height cur"
    and ts: "0 < ts"
  shows "detect_changes cur prev ts =
           Inr (map (tile_at cur) (filter (pixels_differ cur prev)
                  (grid_tiles (frame_width cur) (frame_height cur) (nat ts))))"
proof -
  let ?t = "nat ts"
  let ?nx = "(frame_width cur + ?t - 1) div ?t" and ?ny = "(frame_height cur + ?t - 1) div ?t"
  let ?g = "\<lambda>j i. (i * ?t, j * ?t, min ?t (frame_width cur - i * ?t),
                    min ?t (frame_height cur - j * ?t))"
  from ts have t: "0 < ?t" by simp
  have row: "concat (map (\<lambda>x. tile_if_changed cur prev ?t x (j * ?t)) (map (\<lambda>i. i * ?t) [0..<?nx]))
        = map (tile_at cur) (filter (pixels_differ cur prev) (map (?g j) [0..<?nx]))"
    if "j < ?ny" for j
  proof -
    have m: "map (\<lambda>i. tile_if_changed cur prev ?t (i * ?t) (j * ?t)) [0..<?nx]
        = map (\<lambda>i. if pixels_differ cur prev (?g j i) then [tile_at cur (?g j i)] else []) [0..<?nx]"
      using tile_if_changed_grid [OF wf dims t _ that] by (intro map_cong) simp_all
    have "concat (map (\<lambda>x. tile_if_changed cur prev ?t x (j * ?t)) (map (\<lambda>i. i * ?t) [0..<?nx]))
        = concat (map (\<lambda>i. tile_if_changed cur prev ?t (i * ?t) (j * ?t)) [0..<?nx])"
      by (simp add: comp_def)
    also have "\<dots> = concat (map (\<lambda>i. if pixels_differ cur prev (?g j i)
                                   then [tile_at cur (?g j i)] else []) [0..<?nx])"
      by (simp only: m)
    also have "\<dots> = map (tile_at cur) (filter (pixels_differ cur prev) (map (?g j) [0..<?nx]))"
      by (simp add: concat_map_if filter_map comp_def)
    finally show ?thesis .
  qed
  have outer: "map (\<lambda>j. concat (map (\<lambda>x. tile_if_changed cur prev ?t x (j * ?t))
                                    (map (\<lambda>i. i * ?t) [0..<?nx]))) [0..<?ny]
      = map (\<lambda>j. map (tile_at cur) (filter (pixels_differ cur prev) (map (?g j) [0..<?nx])))
            [0..<?ny]"
    using row by (intro map_cong) simp_all
  have "concat (map (\<lambda>y. concat (map (\<lambda>x. tile_if_changed cur prev ?t x y) (map (\<lambda>i. i * ?t) [0..<?nx])))
            (map (\<lambda>j. j * ?t) [0..<?ny]))
      = concat (map (\<lambda>j. concat (map (\<lambda>x. tile_if_changed cur prev ?t x (j * ?t))
                                    (map (\<lambda>i. i * ?t) [0..<?nx]))) [0..<?ny])"
    by (simp only: map_map comp_def)
  also have "\<dots> = concat (map (\<lambda>j. map (tile_at cur) (filter (pixels_differ cur prev)
                                 (map (?g j) [0..<?nx]))) [0..<?ny])"
    by (simp only: outer)
  also have "\<dots> = map (tile_at cur) (filter (pixels_differ cur prev)
                  (grid_tiles (frame_width cur) (frame_height cur) ?t))"
    by (simp add: grid_tiles_def map_concat filter_concat map_map comp_def)
  finally show ?thesis
    using ts by (simp add: detect_changes_def py_range_grid bind_err_def)
qed

lemma partition_and_detect_changes_eq:
  assumes ts: "0 < p_tile_size P" and wf: "wf_frame cur"
    and wfp: "case p_last_frame_np P of None \<Rightarrow> True | Some prev \<Rightarrow> wf_frame prev"
  shows "partition_and_detect_changes P cur =
     (Inr \<lparr>frame_number = p_frame_number P + 1,
           changed_tiles =
             (case p_last_frame_np P of
                None \<Rightarrow> [full_frame_tile cur]
              | Some prev \<Rightarrow>
                  if np_shape prev \<noteq> np_shape cur then [full_frame_tile cur]
                  else map (tile_at cur) (filter (pixels_differ cur prev)
                         (grid_tiles (frame_width cur) (frame_height cur)
                            (nat (p_tile_size P))))),
           full_frame_fallback =
             (case p_last_frame_np P of
                None \<Rightarrow> True | Some prev \<Rightarrow> np_shape prev \<noteq> np_shape cur)\<rparr>,
      P\<lparr>p_frame_number := p_frame_number P + 1, p_last_frame_np := Some cur\<rparr>)"
proof (cases "p_last_frame_np P")
  case None
  then show ?thesis by (simp add: partition_and_detect_changes_def Let_def)
next
  case (Some prev)
  show ?thesis
  proof (cases "np_shape prev = np_shape cur")
    case False
    with Some show ?thesis by (simp add: partition_and_detect_changes_def Let_def)
  next
    case True
    then have dims: "frame_width prev = frame_width cur" "frame_height prev = frame_height cur"
      by (simp_all add: np_shape_def)
    from wfp Some have "wf_frame prev" by simp
    from detect_changes_grid [OF wf this dims ts] Some True show ?thesis
      by (simp add: partition_and_detect_changes_def Let_def)
  qed
qed

text \<open>
  C3. For a partitioner with a positive tile size and rectangular frames (as NumPy arrays
  are): when a prior frame of the same shape is stored, the returned delta frame holds, in
  scan order, exactly the tiles of the grid of step \<open>tile_size\<close> (last row and column
  shorter) in which some pixel differs from the prior frame, each cut from the current
  frame; when no prior frame is stored or the shape has changed, it holds the single
  full-frame tile and \<open>full_frame_fallback\<close> is set; and in every case the stored reference
  frame becomes the current frame, also when no tile has changed.
\<close>

theorem partition_and_detect_changes_correct:
  assumes "0 < p_tile_size P" and "wf_frame cur"
    and "case p_last_frame_np P of None \<Rightarrow> True | Some prev \<Rightarrow> wf_frame prev"
  shows "(\<forall>prev. p_last_frame_np P = Some prev \<and> np_shape prev = np_shape cur \<longrightarrow>
            fst (partition_and_detect_changes P cur) =
              Inr \<lparr>frame_number = p_frame_number P + 1,
                    changed_tiles = map (tile_at cur) (filter (pixels_differ cur prev)
                       (grid_tiles (frame_width cur) (frame_height cur) (nat (p_tile_size P)))),
                    full_frame_fallback = False\<rparr>)
       \<and> (p_last_frame_np P = None
            \<or> (\<exists>prev. p_last_frame_np P = Some prev \<and> np_shape prev \<noteq> np_shape cur) \<longrightarrow>
            fst (partition_and_detect_changes P cur) =
              Inr \<lparr>frame_number = p_frame_number P + 1,
                    changed_tiles = [full_frame_tile cur],
                    full_frame_fallback = True\<rparr>)
       \<and> p_last_frame_np (snd (partition_and_detect_changes P cur)) = Some cur"
  by (auto simp: partition_and_detect_changes_eq [OF assms])

lemma example_grid: "grid_tiles 3 2 2 = [(0, 0, 2, 2), (2, 0, 1, 2)]"
  by (simp add: grid_tiles_def upt_rec)

lemma example_differ:
  "filter (pixels_differ example_frame' example_frame) [(0, 0, 2, 2), (2, 0, 1, 2)] = [(2, 0, 1, 2)]"
  by (simp add: pixels_differ_def example_frame_def example_frame'_def Bex_def nth_Cons' numeral_2_eq_2 less_Suc_eq)

theorem partition_and_detect_changes_correct_witness:
  "0 < p_tile_size example_partitioner \<and> wf_frame example_frame' \<and> wf_frame example_frame
   \<and> p_last_frame_np example_partitioner = Some example_frame
   \<and> np_shape example_frame = np_shape example_frame'
   \<and> fst (partition_and_detect_changes example_partitioner example_frame') =
         Inr \<lparr>frame_number = 1,
               changed_tiles = [\<lparr>tile_x = 2, tile_y = 0, tile_width = 1, tile_height = 2,
                                 image_data = [[9], [6]]\<rparr>],
               full_frame_fallback = False\<rparr>
   \<and> p_last_frame_np (snd (partition_and_detect_changes example_partitioner example_frame'))
       = Some example_frame'"
proof -
  have h1: "0 < p_tile_size example_partitioner"
    by (simp add: example_partitioner_def)
  have h2: "wf_frame example_frame'" and h2': "wf_frame example_frame"
    by (simp_all add: wf_frame_def example_frame'_def example_frame_def)
  have l: "p_last_frame_np example_partitioner = Some example_frame"
    by (simp add: example_partitioner_def)
  have h3: "case p_last_frame_np example_partitioner of None \<Rightarrow> True | Some prev \<Rightarrow> wf_frame prev"
    by (simp add: l h2')
  have sh: "np_shape example_frame = np_shape example_frame'"
    by (simp add: np_shape_def example_frame'_def example_frame_def)
  have ev: "map (tile_at example_frame') (filter (pixels_differ example_frame' example_frame)
              (grid_tiles (frame_width example_frame') (frame_height example_frame')
                 (nat (p_tile_size example_partitioner))))
          = [\<lparr>tile_x = 2, tile_y = 0, tile_width = 1, tile_height = 2,
               image_data = [[9], [6]]\<rparr>]"
  proof -
    have "grid_tiles (frame_width example_frame') (frame_height example_frame')
            (nat (p_tile_size example_partitioner)) = [(0, 0, 2, 2), (2, 0, 1, 2)]"
      by (simp add: example_frame'_def example_partitioner_def example_grid)
    then have "filter (pixels_differ example_frame' example_frame)
                 (grid_tiles (frame_width example_frame') (frame_height example_frame')
                    (nat (p_tile_size example_partitioner))) = [(2, 0, 1, 2)]"
      by (simp only: example_differ)
    then show ?thesis
      by (simp add: tile_at_def get_tile_def np_region_def example_frame'_def)
  qed
  have n: "p_frame_number example_partitioner + 1 = 1"
    by (simp add: example_partitioner_def)
  from partition_and_detect_changes_correct [OF h1 h2 h3] l sh
  have "fst (partition_and_detect_changes example_partitioner example_frame') =
          Inr \<lparr>frame_number = p_frame_number example_partitioner + 1,
                changed_tiles = map (tile_at example_frame')
                  (filter (pixels_differ example_frame' example_frame)
                    (grid_tiles (frame_width example_frame') (frame_height example_frame')
                       (nat (p_tile_size example_partitioner)))),
                full_frame_fallback = False\<rparr>"
    and "p_last_frame_np (snd (partition_and_detect_changes example_partitioner example_frame'))
          = Some example_frame'"
    by blast+
  then show ?thesis using h1 h2 h2' l sh by (simp only: ev n simp_thms)
qed

section \<open>The first binary frame a new viewer receives\<close>

lemma get_initial_payload_bytes:
  assumes "get_initial_payload enc now_ms P frame = (Inr init_frame, P')"
  shows "\<exists>bt b0 bw bh bl. pack_i64 now_ms = Inr bt \<and> pack_i32 0 = Inr b0
           \<and> pack_i32 (int (frame_width frame)) = Inr bw
           \<and> pack_i32 (int (frame_height frame)) = Inr bh
           \<and> pack_i32 (int (length (enc (image_data (full_frame_tile frame))))) = Inr bl
           \<and> init_frame = 1 # bt @ b0 @ bw @ bh @ bl @ enc (image_data (full_frame_tile frame))"
  using assms
  by (auto simp: get_initial_payload_def create_full_frame_delta_def encode_def bind_err_Inr
      Let_def full_frame_tile_def get_tile_def)

text \<open>
  C1. After the VERSION text frame, \<open>_ws_handler\<close> sends the bytes of
  \<open>get_initial_payload\<close> as they are. That payload carries a tile count of 0 and the
  frame's width and height, but its first byte is the delta tag \<open>0x01\<close> that
  \<open>WebPEncoder.encode\<close> writes, not the keyframe tag \<open>0x02\<close>: only the broadcast loop
  rewrites the tag (\<open>keyframe_packet\<close>) before it sends the same payload.
\<close>

theorem initial_frame_has_delta_tag:
  assumes "get_initial_payload enc now_ms P frame = (Inr init_frame, P')"
  shows "ws_handler_join version_json (fst (get_initial_payload enc now_ms P frame))
           = [Text version_json, Binary init_frame]
         \<and> init_frame \<noteq> [] \<and> hd init_frame = 1
         \<and> unpack_i32 (py_slice init_frame 9 13) = Inr 0
         \<and> unpack_i32s 2 (py_slice init_frame 13 21)
             = Inr [int (frame_width frame), int (frame_height frame)]
         \<and> hd (keyframe_packet init_frame) = 2"
proof -
  from get_initial_payload_bytes [OF assms] obtain bt b0 bw bh bl where
    p: "pack_i64 now_ms = Inr bt" "pack_i32 0 = Inr b0"
       "pack_i32 (int (frame_width frame)) = Inr bw"
       "pack_i32 (int (frame_height frame)) = Inr bh"
    and f: "init_frame = 1 # bt @ b0 @ bw @ bh @ bl @ enc (image_data (full_frame_tile frame))"
    by blast
  let ?img = "enc (image_data (full_frame_tile frame))"
  have len: "length bt = 8" "length b0 = 4" "length bw = 4" "length bh = 4"
    using p by (simp_all add: pack_i32_length pack_i64_length)
  have s1: "py_slice init_frame 9 13 = b0"
    using py_slice_mid [of 9 "1 # bt" 13 b0 "bw @ bh @ bl @ ?img"] len by (simp add: f)
  have s2: "py_slice init_frame 13 21 = bw @ bh"
    using py_slice_mid [of 13 "1 # bt @ b0" 21 "bw @ bh" "bl @ ?img"] len by (simp add: f)
  show ?thesis
    using assms p by (simp add: s1 s2 unpack_pack_i32 unpack_i32s_2 ws_handler_join_def)
      (simp add: f keyframe_packet_def)
qed

theorem initial_frame_has_delta_tag_witness:
  "get_initial_payload toy_enc_rows 1000 example_partitioner example_frame
     = (Inr example_initial_frame, example_partitioner)
   \<and> ws_handler_join ''VERSION''
         (fst (get_initial_payload toy_enc_rows 1000 example_partitioner example_frame))
       = [Text ''VERSION'', Binary example_initial_frame]
   \<and> example_initial_frame \<noteq> [] \<and> hd example_initial_frame = 1
   \<and> unpack_i32 (py_slice example_initial_frame 9 13) = Inr 0
   \<and> unpack_i32s 2 (py_slice example_initial_frame 13 21)
       = Inr [int (frame_width example_frame), int (frame_height example_frame)]
   \<and> hd (keyframe_packet example_initial_frame) = 2"
proof -
  have a: "get_initial_payload toy_enc_rows 1000 example_partitioner example_frame
             = (Inr example_initial_frame, example_partitioner)"
    by (simp add: get_initial_payload_def create_full_frame_delta_def encode_def
        full_frame_tile_def get_tile_def np_region_def example_frame_def
        example_partitioner_def example_initial_frame_def toy_enc_rows_def
        bind_err_simps pack_i32_def pack_i64_def pack_signed_def le_bytes_4 le_bytes_8)
  from initial_frame_has_delta_tag [OF a, of "''VERSION''"] a show ?thesis by simp
qed

section \<open>Frame numbers over a run of one partitioner\<close>

lemma run_partitioner_lower:
  "(c, d) \<in> set (run_partitioner P calls) \<Longrightarrow> is_partition c
     \<Longrightarrow> p_frame_number P < frame_number d"
proof (induction calls arbitrary: P)
  case Nil
  then show ?case by simp
next
  case (Cons a calls)
  show ?case
  proof (cases a)
    case (Partition f)
    obtain r P' where r: "partition_and_detect_changes P f = (r, P')" by (cases "partition_and_detect_changes P f")
    then have n: "p_frame_number P' = p_frame_number P + 1"
      and fr: "\<And>d'. r = Inr d' \<Longrightarrow> frame_number d' = p_frame_number P + 1"
      by (auto simp: partition_and_detect_changes_def Let_def split: option.splits if_splits sum.splits)
    from Cons.prems Partition r
    consider "r = Inr d" | "(c, d) \<in> set (run_partitioner P' calls)"
      by (auto split: sum.splits)
    then show ?thesis
    proof cases
      case 1
      with fr show ?thesis by simp
    next
      case 2
      from Cons.IH [OF this Cons.prems(2)] n show ?thesis by simp
    qed
  next
    case (FullFrame f)
    with Cons.prems have "(c, d) \<in> set (run_partitioner (P\<lparr>p_last_frame_np := Some f\<rparr>) calls)"
      by (auto simp: create_full_frame_delta_def)
    from Cons.IH [OF this Cons.prems(2)] show ?thesis by simp
  qed
qed

lemma run_partitioner_sorted:
  "sorted_wrt (<) (map (frame_number \<circ> snd) (filter (is_partition \<circ> fst) (run_partitioner P calls)))"
proof (induction calls arbitrary: P)
  case Nil
  then show ?case by simp
next
  case (Cons a calls)
  show ?case
  proof (cases a)
    case (Partition f)
    obtain r P' where r: "partition_and_detect_changes P f = (r, P')" by (cases "partition_and_detect_changes P f")
    then have n: "p_frame_number P' = p_frame_number P + 1"
      and fr: "\<And>d'. r = Inr d' \<Longrightarrow> frame_number d' = p_frame_number P + 1"
      by (auto simp: partition_and_detect_changes_def Let_def split: option.splits if_splits sum.splits)
    show ?thesis
    proof (cases r)
      case (Inl e)
      with Partition r Cons.IH [of P'] show ?thesis by simp
    next
      case (Inr d)
      have "frame_number d < frame_number d'"
        if "(c, d') \<in> set (run_partitioner P' calls)" "is_partition c" for c d'
        using run_partitioner_lower [OF that] n fr [OF Inr] by simp
      with Partition r Inr Cons.IH [of P'] show ?thesis by auto
    qed
  next
    case (FullFrame f)
    with Cons.IH [of "P\<lparr>p_last_frame_np := Some f\<rparr>"] show ?thesis
      by (simp add: create_full_frame_delta_def)
  qed
qed

lemma run_partitioner_full_frame_zero:
  "(c, d) \<in> set (run_partitioner P calls) \<Longrightarrow> \<not> is_partition c \<Longrightarrow> frame_number d = 0"
proof (induction calls arbitrary: P)
  case Nil
  then show ?case by simp
next
  case (Cons a calls)
  show ?case
  proof (cases a)
    case (Partition f)
    obtain r P' where r: "partition_and_detect_changes P f = (r, P')"
      by (cases "partition_and_detect_changes P f")
    with Cons.prems Partition have "(c, d) \<in> set (run_partitioner P' calls)"
      by (auto split: sum.splits)
    from Cons.IH [OF this Cons.prems(2)] show ?thesis .
  next
    case (FullFrame f)
    obtain d0 P' where r: "create_full_frame_delta P f = (d0, P')"
      by (cases "create_full_frame_delta P f")
    then have z: "frame_number d0 = 0"
      by (auto simp: create_full_frame_delta_def)
    from Cons.prems FullFrame r consider "d = d0" | "(c, d) \<in> set (run_partitioner P' calls)"
      by auto
    then show ?thesis
    proof cases
      case 1
      with z show ?thesis by simp
    next
      case 2
      from Cons.IH [OF this Cons.prems(2)] show ?thesis .
    qed
  qed
qed

lemma partition_counter:
  "p_frame_number (snd (partition_and_detect_changes P f)) = p_frame_number P + 1"
  "fst (partition_and_detect_changes P f) = Inr d \<Longrightarrow> frame_number d = p_frame_number P + 1"
  by (auto simp: partition_and_detect_changes_def Let_def
      split: option.splits if_splits sum.splits)

lemma full_frame_counter:
  "p_frame_number (snd (create_full_frame_delta P f)) = p_frame_number P"
  "frame_number (fst (create_full_frame_delta P f)) = 0"
  by (simp_all add: create_full_frame_delta_def)

text \<open>
  C9, as the code has it. Every call of \<open>partition_and_detect_changes\<close> increments the
  partitioner's counter by one and the delta frame it returns carries the new value, so
  over any sequence of calls on one partitioner the delta frames returned by
  \<open>partition_and_detect_changes\<close> carry strictly increasing frame numbers; every delta
  frame returned by \<open>create_full_frame_delta\<close> carries frame number 0, and that call
  leaves the counter unchanged.
\<close>

theorem partition_frame_numbers_increasing:
  "sorted_wrt (<) (map (frame_number \<circ> snd)
      (filter (is_partition \<circ> fst) (run_partitioner P calls)))
   \<and> (\<forall>(c, d)\<in>set (run_partitioner P calls). \<not> is_partition c \<longrightarrow> frame_number d = 0)
   \<and> p_frame_number (snd (partition_and_detect_changes P f)) = p_frame_number P + 1
   \<and> (\<forall>d. fst (partition_and_detect_changes P f) = Inr d \<longrightarrow>
          frame_number d = p_frame_number P + 1)
   \<and> p_frame_number (snd (create_full_frame_delta P f)) = p_frame_number P
   \<and> frame_number (fst (create_full_frame_delta P f)) = 0"
  using run_partitioner_sorted [of P calls] run_partitioner_full_frame_zero [of _ _ P calls]
    partition_counter [of P f] full_frame_counter [of P f]
  by auto

lemma example_run:
  "map (frame_number \<circ> snd) (run_partitioner fresh_partitioner example_calls) = [1, 0, 2]"
  by (simp add: fresh_partitioner_def example_calls_def partition_and_detect_changes_def
      create_full_frame_delta_def Let_def np_shape_def example_frame_def example_frame'_def
      detect_changes_def py_range_def range_up.simps bind_err_simps tile_if_changed_def)

theorem partition_frame_numbers_increasing_witness:
  "sorted_wrt (<) (map (frame_number \<circ> snd)
      (filter (is_partition \<circ> fst) (run_partitioner fresh_partitioner example_calls)))
   \<and> map (frame_number \<circ> snd) (run_partitioner fresh_partitioner example_calls) = [1, 0, 2]
   \<and> p_frame_number (snd (partition_and_detect_changes fresh_partitioner example_frame)) = 1
   \<and> p_frame_number (snd (create_full_frame_delta fresh_partitioner example_frame)) = 0
   \<and> frame_number (fst (create_full_frame_delta fresh_partitioner example_frame)) = 0"
  using partition_frame_numbers_increasing [of fresh_partitioner example_calls example_frame]
    example_run
  by (simp add: fresh_partitioner_def)

text \<open>
  The claim as stated fails: a keyframe made by \<open>create_full_frame_delta\<close> after an
  ordinary frame carries number 0, which is not greater than the number before it.
\<close>

theorem frame_number_keyframe_counterexample:
  "map (frame_number \<circ> snd) (run_partitioner fresh_partitioner (take 2 example_calls)) = [1, 0]
   \<and> \<not> sorted_wrt (<) (map (frame_number \<circ> snd)
           (run_partitioner fresh_partitioner (take 2 example_calls)))"
  by (simp add: fresh_partitioner_def example_calls_def partition_and_detect_changes_def
      create_full_frame_delta_def Let_def)

section \<open>The governor's control law\<close>


lemma spec_pressures:
  "queue_pressure stats = spec_queue_pressure stats"
  "decode_pressure stats = spec_decode_pressure stats"
  "total_pressure stats = spec_total_pressure stats"
  by (simp_all add: queue_pressure_def spec_queue_pressure_def decode_pressure_def
      spec_decode_pressure_def total_pressure_def spec_total_pressure_def Let_def)

lemma update_target_fps_keeps:
  "current_quality (update_target_fps g stats) = current_quality g"
  "last_applied_quality (update_target_fps g stats) = last_applied_quality g"
  "min_quality (update_target_fps g stats) = min_quality g"
  "max_quality (update_target_fps g stats) = max_quality g"
  by (simp_all add: update_target_fps_def Let_def)

lemma update_foveated_radius_keeps:
  "current_quality (update_foveated_radius g stats) = current_quality g"
  "last_applied_quality (update_foveated_radius g stats) = last_applied_quality g"
  "min_quality (update_foveated_radius g stats) = min_quality g"
  "max_quality (update_foveated_radius g stats) = max_quality g"
  by (simp_all add: update_foveated_radius_def)

lemma update_tile_size_keeps:
  "current_quality (update_tile_size g stats) = current_quality g"
  "last_applied_quality (update_tile_size g stats) = last_applied_quality g"
  by (simp_all add: update_tile_size_def)

lemma spec_applies_cong:
  "last_applied_quality g' = last_applied_quality g \<Longrightarrow> min_quality g' = min_quality g
     \<Longrightarrow> max_quality g' = max_quality g \<Longrightarrow> spec_applies g' q = spec_applies g q"
  by (simp add: spec_applies_def)

lemma spec_new_quality_cong:
  "current_quality g' = current_quality g \<Longrightarrow> min_quality g' = min_quality g
     \<Longrightarrow> max_quality g' = max_quality g
     \<Longrightarrow> spec_new_quality g' stats = spec_new_quality g stats"
  by (simp add: spec_new_quality_def)

lemma update_quality_unfold:
  "update_quality g stats =
     (if spec_applies g (spec_new_quality g stats)
      then g\<lparr>current_quality := spec_new_quality g stats,
             last_applied_quality := spec_new_quality g stats\<rparr>
      else g)"
  unfolding update_quality_def Let_def spec_applies_def spec_new_quality_def clamp_def
    spec_pressures quality_deadband_def
  by (rule refl)

lemma update_quality_spec:
  "current_quality (update_quality g stats) =
     (if spec_applies g (spec_new_quality g stats) then spec_new_quality g stats
      else current_quality g)"
  "last_applied_quality (update_quality g stats) =
     (if spec_applies g (spec_new_quality g stats) then spec_new_quality g stats
      else last_applied_quality g)"
  by (simp_all add: update_quality_unfold)

lemma update_quality:
  assumes "1 / 2 \<le> now - last_update_time g"
  shows "current_quality (update g now stats) =
           (if spec_applies g (spec_new_quality g stats) then spec_new_quality g stats
            else current_quality g)"
    and "last_applied_quality (update g now stats) =
           (if spec_applies g (spec_new_quality g stats) then spec_new_quality g stats
            else last_applied_quality g)"
    and "last_update_time (update g now stats) = now"
proof -
  let ?g = "update_foveated_radius (update_target_fps g stats) stats"
  have k: "current_quality ?g = current_quality g"
    "last_applied_quality ?g = last_applied_quality g"
    "min_quality ?g = min_quality g" "max_quality ?g = max_quality g"
    by (simp_all only: update_foveated_radius_keeps update_target_fps_keeps)
  have a: "spec_applies ?g q = spec_applies g q" for q
    by (rule spec_applies_cong) (simp_all only: k)
  have n: "spec_new_quality ?g stats = spec_new_quality g stats"
    by (rule spec_new_quality_cong) (simp_all only: k)
  from assms have u: "update g now stats =
      (update_tile_size (update_quality ?g stats) stats)\<lparr>last_update_time := now\<rparr>"
    by (simp add: update_def)
  show "current_quality (update g now stats) =
           (if spec_applies g (spec_new_quality g stats) then spec_new_quality g stats
            else current_quality g)"
    by (simp add: u update_tile_size_keeps update_quality_spec a n k)
  show "last_applied_quality (update g now stats) =
           (if spec_applies g (spec_new_quality g stats) then spec_new_quality g stats
            else last_applied_quality g)"
    by (simp add: u update_tile_size_keeps update_quality_spec a n k)
  show "last_update_time (update g now stats) = now"
    by (simp add: u)
qed



section \<open>Engine registry, blacklist and reset\<close>

lemma register_engine_result:
  "register_engine m fc opt eng s = (ed, s') \<Longrightarrow>
     engine ed = eng \<and> clients ed = {} \<and> engines s' = (engines s)(m \<mapsto> ed)
     \<and> clients_sending s' = clients_sending s
     \<and> backend_blacklist s' =
         (if \<not> fc \<and> opt \<and> startswith (capture_name (capture eng)) ''MSS''
          then (backend_blacklist s)(m \<mapsto> clock s) else backend_blacklist s)"
  by (auto simp: register_engine_def Let_def)

lemma drop_old_engine_fields:
  "engines (drop_old_engine m s) = (engines s)(m := None)"
  "backend_blacklist (drop_old_engine m s) = backend_blacklist s"
  "clients_sending (drop_old_engine m s) = clients_sending s"
  "cfg_optimize_capture_pipeline (drop_old_engine m s) = cfg_optimize_capture_pipeline s"
  "clock (drop_old_engine m s) = (if engines s m = None then clock s else clock s + 500)"
  by (auto simp: drop_old_engine_def asyncio_sleep_def split: option.splits)

lemma startswith_MSS:
  "startswith (capture_name c) ''MSS'' \<longleftrightarrow> c = MSS"
  by (cases c) (simp_all add: startswith_def capture_name_def)




text \<open>
  The second half of C6 does hold: when the native source was asked for (no
  \<open>force_compat\<close>, no cool-down, \<open>optimize_capture_pipeline\<close> set) and the factory came
  back with MSS, the monitor is blacklisted at the current time and the slot is
  registered and returned all the same.
\<close>

lemma downgrade_is_blacklisted:
  assumes "\<not> in_cool_down s m" and "engines s m = None"
    and "cfg_optimize_capture_pipeline s"
    and "\<not> native_available env (clock s) m" and "mss_available env (clock s) m"
  shows "\<exists>ed s'. get_or_create_engine env m False s = (Returns ed, s')
           \<and> capture (engine ed) = MSS \<and> engines s' m = Some ed
           \<and> backend_blacklist s' m = Some (clock s)"
proof -
  have fc: "(if \<not> False \<and> in_cool_down s m then True else False) = False"
    using assms(1) by simp
  have d: "drop_old_engine m s = s"
    using assms(2) by (simp add: drop_old_engine_def)
  let ?eng = "\<lparr>capture = MSS, engine_monitor_id = m, engine_optimize_pipeline = True\<rparr>"
  have e: "StreamEngine env (clock s) m True = Inr ?eng"
    using assms(4,5) by (simp add: StreamEngine_def CaptureFactory_create_def bind_err_def)
  obtain ed s' where r: "register_engine m False True ?eng s = (ed, s')"
    by (cases "register_engine m False True ?eng s")
  have "get_or_create_engine env m False s = (Returns ed, s')"
    unfolding get_or_create_engine_def fc Let_def
    using assms(2,3) by (simp add: d e r)
  with register_engine_result [OF r] show ?thesis
    by (simp add: startswith_MSS)
qed











section \<open>At most one send in flight to a viewer\<close>






























end
